theory Spec2Isabelle
  imports Main
begin

section \<open>The Arduino water sampler: sequencer, configuration and editor\<close>

text \<open>
  A shallow embedding of \<^verbatim>\<open>src/ArduinoWaterSampler.ino\<close>. The sketch is a single
  cooperative loop; every function below is one callback of the sketch, taking the
  global variables as a record and returning the record updated. Serial debug output
  and the blocking \<^verbatim>\<open>delay(800)\<close> calls change no variable and are left out; the
  full-screen notifications of \<^verbatim>\<open>displayBig\<close> are kept as a log.
\<close>

subsection \<open>Integers of the target\<close>

text \<open>
  \<^verbatim>\<open>int\<close> is 16 bits wide on the AVR target. Values are mathematical integers in the
  model and every sum or difference the sketch stores in an \<^verbatim>\<open>int\<close> is normalised with
  \<open>int16\<close>, the two's-complement result of the 16-bit ALU. Division and remainder
  truncate towards zero as in C++.
\<close>

definition int16 :: "int \<Rightarrow> int" where
  "int16 x = (x + 32768) mod 65536 - 32768"

definition cdiv :: "int \<Rightarrow> int \<Rightarrow> int" where
  "cdiv a b = sgn a * sgn b * (\<bar>a\<bar> div \<bar>b\<bar>)"

definition cmod :: "int \<Rightarrow> int \<Rightarrow> int" where
  "cmod a b = a - b * cdiv a b"

subsection \<open>Constants\<close>

definition MIN2MILLI :: int where
  "MIN2MILLI = 60 * 1000"

definition PUMP_PINS :: "int list" where
  "PUMP_PINS = [8, 9, 10, 11, 12, 13]"

definition upBtn :: int where
  "upBtn = cdiv 1023 3"

definition downBtn :: int where
  "downBtn = cdiv 1023 2"

definition nextBtn :: int where
  "nextBtn = 1023"

subsection \<open>State\<close>

text \<open>
  The two functions handed to \<^verbatim>\<open>timer.after\<close>: the overloads \<^verbatim>\<open>startPump()\<close> and
  \<^verbatim>\<open>stopPump()\<close> without argument.
\<close>

datatype callback = StartPump | StopPump

text \<open>
  Indexing \<^verbatim>\<open>PUMP_PINS[6]\<close> or \<^verbatim>\<open>pumpActive[6]\<close> outside \<open>0..5\<close> is undefined behaviour
  in C++; the model stops with the offending index.
\<close>

datatype fault = OutOfBounds int

text \<open>
  Modelled from the spec: the storage capability \<^verbatim>\<open>getInt(index)\<close>, \<^verbatim>\<open>set(index, value)\<close>,
  \<^verbatim>\<open>save()\<close> of the Properties library, which is not part of the sketch. \<open>props\<close> is the
  table in memory, read by \<^verbatim>\<open>getInt\<close> and updated at one index by \<^verbatim>\<open>set\<close>; \<open>eeprom\<close> is
  the copy that \<^verbatim>\<open>save\<close> writes.

  The other fields are the global variables of the sketch and what it drives:
  \<open>pinLevel\<close> and \<open>pinOutput\<close> are the level and the direction of each digital pin,
  \<open>timers\<close> the single-shot events registered with \<^verbatim>\<open>timer.after\<close> that have not fired
  yet (delay in milliseconds and callback, in registration order), \<open>shown\<close> the
  notifications put on the screen by \<^verbatim>\<open>displayBig\<close>.
\<close>

record sampler =
  error :: bool
  running :: bool
  reqRestart :: bool
  cursorPos :: int
  blinker :: bool
  initPumpNo :: int
  currentPumpNo :: int
  pumpActive :: "bool list"
  props :: "int \<Rightarrow> int"
  eeprom :: "int \<Rightarrow> int"
  pinLevel :: "int \<Rightarrow> bool"
  pinOutput :: "int \<Rightarrow> bool"
  timers :: "(int \<times> callback) list"
  shown :: "string list"

text \<open>
  The variables after \<^verbatim>\<open>setup()\<close>: the initialisers of the globals, the configuration
  \<open>cfg\<close> found in persistent storage, and \<^verbatim>\<open>error\<close> set when \<^verbatim>\<open>Properties.load()\<close>
  failed. The periodic \<^verbatim>\<open>timer.every(500, blink)\<close> is the event \<open>EvBlink\<close> below.
\<close>

definition setup_state :: "(int \<Rightarrow> int) \<Rightarrow> bool \<Rightarrow> sampler" where
  "setup_state cfg loaded =
     \<lparr> error = \<not> loaded, running = False, reqRestart = False, cursorPos = 0,
       blinker = False, initPumpNo = 0, currentPumpNo = 0,
       pumpActive = [False, False, False, False, False, False],
       props = cfg, eeprom = cfg,
       pinLevel = (\<lambda>p. False), pinOutput = (\<lambda>p. False),
       timers = [], shown = [] \<rparr>"

subsection \<open>Sequencer\<close>

text \<open>
  \<^verbatim>\<open>void stopPump(int pumpNo)\<close>: drives the pin low and clears the flag. There is no
  test of \<^verbatim>\<open>running\<close>.
\<close>

definition stopPump_int :: "int \<Rightarrow> sampler \<Rightarrow> fault + sampler" where
  "stopPump_int pumpNo s =
     (if 0 \<le> pumpNo \<and> pumpNo < 6 then
        Inr (s\<lparr> pinLevel := (pinLevel s)(PUMP_PINS ! nat pumpNo := False),
                pumpActive := (pumpActive s)[nat pumpNo := False] \<rparr>)
      else Inl (OutOfBounds pumpNo))"

text \<open>
  \<^verbatim>\<open>void stopPump()\<close>, the timer callback: \<^verbatim>\<open>stopPump(currentPumpNo); currentPumpNo++;\<close>
\<close>

definition stopPump :: "sampler \<Rightarrow> fault + sampler" where
  "stopPump s =
     (case stopPump_int (currentPumpNo s) s of
        Inl e \<Rightarrow> Inl e
      | Inr s' \<Rightarrow> Inr (s'\<lparr> currentPumpNo := int16 (currentPumpNo s' + 1) \<rparr>))"

text \<open>
  The loop \<^verbatim>\<open>for (int i=0; i<6; i++) { if (i!=pumpNo) { stopPump(i); } }\<close> of
  \<^verbatim>\<open>startPump(int)\<close>, entered at \<open>i\<close>.
\<close>

function stopOthers :: "int \<Rightarrow> int \<Rightarrow> sampler \<Rightarrow> fault + sampler" where
  "stopOthers pumpNo i s =
     (if i < 6 then
        (if i \<noteq> pumpNo then
           (case stopPump_int i s of
              Inl e \<Rightarrow> Inl e
            | Inr s' \<Rightarrow> stopOthers pumpNo (i + 1) s')
         else stopOthers pumpNo (i + 1) s)
      else Inr s)"
  by pat_completeness auto
termination
  by (relation "measure (\<lambda>(pumpNo, i, s). nat (6 - i))") auto

declare stopOthers.simps [simp del]

text \<open>
  \<^verbatim>\<open>void startPump(int pumpNo)\<close>: under \<^verbatim>\<open>if (running)\<close> the pin goes high, the flag is
  set, \<^verbatim>\<open>stopPump\<close> is registered after \<^verbatim>\<open>Properties.getInt(6)*MIN2MILLI\<close> (a \<^verbatim>\<open>long\<close>
  product, which a 16-bit factor cannot overflow), then every other pump is stopped.
\<close>

definition startPump_int :: "int \<Rightarrow> sampler \<Rightarrow> fault + sampler" where
  "startPump_int pumpNo s =
     (if running s then
        (if 0 \<le> pumpNo \<and> pumpNo < 6 then
           stopOthers pumpNo 0
             (s\<lparr> pinLevel := (pinLevel s)(PUMP_PINS ! nat pumpNo := True),
                  pumpActive := (pumpActive s)[nat pumpNo := True],
                  timers := timers s @ [(props s 6 * MIN2MILLI, StopPump)] \<rparr>)
         else Inl (OutOfBounds pumpNo))
      else Inr s)"

text \<open>
  \<^verbatim>\<open>void startPump()\<close>, the timer callback: \<^verbatim>\<open>startPump(initPumpNo); initPumpNo++;\<close>
\<close>

definition startPump :: "sampler \<Rightarrow> fault + sampler" where
  "startPump s =
     (case startPump_int (initPumpNo s) s of
        Inl e \<Rightarrow> Inl e
      | Inr s' \<Rightarrow> Inr (s'\<lparr> initPumpNo := int16 (initPumpNo s' + 1) \<rparr>))"

text \<open>
  The loop of \<^verbatim>\<open>setupPumps\<close>, entered at \<open>i\<close>: \<^verbatim>\<open>pinMode(PUMP_PINS[i], OUTPUT);
  timer.after(Properties.getInt(i) * MIN2MILLI, startPump);\<close> for \<open>i < 6\<close>.
\<close>

function setupPumps_loop :: "int \<Rightarrow> sampler \<Rightarrow> sampler" where
  "setupPumps_loop i s =
     (if 0 \<le> i \<and> i < 6 then
        setupPumps_loop (i + 1)
          (s\<lparr> pinOutput := (pinOutput s)(PUMP_PINS ! nat i := True),
               timers := timers s @ [(props s i * MIN2MILLI, StartPump)] \<rparr>)
      else s)"
  by pat_completeness auto
termination
  by (relation "measure (\<lambda>(i, s). nat (6 - i))") auto

declare setupPumps_loop.simps [simp del]

text \<open>\<^verbatim>\<open>void setupPumps()\<close>: the loop from 0, then \<^verbatim>\<open>initPumpNo = 0\<close>.\<close>

definition setupPumps :: "sampler \<Rightarrow> sampler" where
  "setupPumps s = (setupPumps_loop 0 s)\<lparr> initPumpNo := 0 \<rparr>"

text \<open>\<^verbatim>\<open>void displayBig(String str)\<close>: the notification is appended to the log.\<close>

definition displayBig :: "string \<Rightarrow> sampler \<Rightarrow> sampler" where
  "displayBig str s = s\<lparr> shown := shown s @ [str] \<rparr>"

text \<open>
  \<^verbatim>\<open>void overWater(ButtonInformation*)\<close>: the halting of the pumps is commented out in
  the sketch; what is left is the notification.
\<close>

definition overWater :: "sampler \<Rightarrow> sampler" where
  "overWater s = displayBig ''Water?'' s"

text \<open>\<^verbatim>\<open>void underWater(ButtonInformation*)\<close>\<close>

definition underWater :: "sampler \<Rightarrow> sampler" where
  "underWater s =
     displayBig ''Started''
       (if \<not> running s then setupPumps (s\<lparr> running := True \<rparr>) else s)"

subsection \<open>Configuration\<close>

text \<open>
  \<^verbatim>\<open>void modify(int pump, int mins)\<close>: \<^verbatim>\<open>reqRestart = true; Properties.set(pump,
  max(Properties.getInt(pump) + mins, 0)); Properties.save();\<close>
\<close>

definition modify :: "int \<Rightarrow> int \<Rightarrow> sampler \<Rightarrow> sampler" where
  "modify pump mins s =
     (let s1 = s\<lparr> reqRestart := True \<rparr>;
          s2 = s1\<lparr> props := (props s1)(pump := max (int16 (props s1 pump + mins)) 0) \<rparr>
      in s2\<lparr> eeprom := props s2 \<rparr>)"

text \<open>
  \<^verbatim>\<open>void saveAndRestart()\<close>: the notification, then \<^verbatim>\<open>setupPumps()\<close>. The watchdog reset
  that followed is commented out in the sketch.
\<close>

definition saveAndRestart :: "sampler \<Rightarrow> sampler" where
  "saveAndRestart s = setupPumps (displayBig (''Saving'' @ [CHR 0x0A] @ ''Config'') s)"

subsection \<open>Editor\<close>

text \<open>
  \<^verbatim>\<open>void incrementCursor(ButtonInformation*)\<close>: \<^verbatim>\<open>cursorPos = (cursorPos + 1) % 14;
  if ((cursorPos == 0) & reqRestart) { saveAndRestart(); }\<close>
\<close>

definition incrementCursor :: "sampler \<Rightarrow> sampler" where
  "incrementCursor s =
     (let s1 = s\<lparr> cursorPos := cmod (int16 (cursorPos s + 1)) 14 \<rparr>
      in if cursorPos s1 = 0 \<and> reqRestart s1 then saveAndRestart s1 else s1)"

text \<open>\<^verbatim>\<open>void decrementCursor(ButtonInformation*)\<close>: \<^verbatim>\<open>cursorPos = max(cursorPos - 2, 0);\<close>\<close>

definition decrementCursor :: "sampler \<Rightarrow> sampler" where
  "decrementCursor s = s\<lparr> cursorPos := max (int16 (cursorPos s - 2)) 0 \<rparr>"

text \<open>
  \<^verbatim>\<open>void changeVal(ButtonInformation* Sender)\<close>; the argument is \<^verbatim>\<open>Sender->analogValue\<close>,
  the level the pressed button was registered with.
\<close>

definition changeVal :: "int \<Rightarrow> sampler \<Rightarrow> sampler" where
  "changeVal analogValue s =
     (let inc = (if cmod (cursorPos s) 2 = 0 then 60 else 1)
      in if analogValue = upBtn then modify (cdiv (cursorPos s) 2) inc s
         else if analogValue = downBtn then modify (cdiv (cursorPos s) 2) (- inc) s
         else s)"

text \<open>\<^verbatim>\<open>void bigChangeVal(ButtonInformation* Sender)\<close>\<close>

definition bigChangeVal :: "int \<Rightarrow> sampler \<Rightarrow> sampler" where
  "bigChangeVal analogValue s =
     (let inc = (if cmod (cursorPos s) 2 = 0 then 540 else 9)
      in if analogValue = upBtn then modify (cdiv (cursorPos s) 2) inc s
         else if analogValue = downBtn then modify (cdiv (cursorPos s) 2) (- inc) s
         else s)"

text \<open>\<^verbatim>\<open>void blink()\<close>\<close>

definition blink :: "sampler \<Rightarrow> sampler" where
  "blink s = s\<lparr> blinker := \<not> blinker s \<rparr>"

subsection \<open>The control loop\<close>

text \<open>
  Modelled from the spec: the delayed-callback primitive \<^verbatim>\<open>after(delayMs, callback)\<close>
  of the Timer library, which is not part of the sketch. A registered event fires once
  and is then gone. \<open>fire n\<close> is \<^verbatim>\<open>timer.update()\<close> finding the \<open>n\<close>-th pending event due;
  when there is no such event nothing happens. Which events are due depends on the
  clock only, so the model lets any pending event fire.
\<close>

definition fire :: "nat \<Rightarrow> sampler \<Rightarrow> fault + sampler" where
  "fire n s =
     (if n < length (timers s) then
        (let s1 = s\<lparr> timers := take n (timers s) @ drop (Suc n) (timers s) \<rparr>
         in case snd (timers s ! n) of
              StartPump \<Rightarrow> startPump s1
            | StopPump \<Rightarrow> stopPump s1)
      else Inr s)"

text \<open>
  What one pass of \<^verbatim>\<open>loop()\<close> can deliver: an event of the timer, or one of the callbacks
  registered with \<^verbatim>\<open>ButtonEvent\<close> in \<^verbatim>\<open>setup()\<close>.
\<close>

datatype event =
    EvUnderWater
  | EvOverWater
  | EvIncrementCursor
  | EvDecrementCursor
  | EvChangeVal int
  | EvBigChangeVal int
  | EvTimer nat
  | EvBlink

fun step :: "event \<Rightarrow> sampler \<Rightarrow> fault + sampler" where
  "step EvUnderWater s = Inr (underWater s)"
| "step EvOverWater s = Inr (overWater s)"
| "step EvIncrementCursor s = Inr (incrementCursor s)"
| "step EvDecrementCursor s = Inr (decrementCursor s)"
| "step (EvChangeVal a) s = Inr (changeVal a s)"
| "step (EvBigChangeVal a) s = Inr (bigChangeVal a s)"
| "step (EvTimer n) s = fire n s"
| "step EvBlink s = Inr (blink s)"

fun run :: "sampler \<Rightarrow> event list \<Rightarrow> fault + sampler" where
  "run s [] = Inr s"
| "run s (e # es) = (case step e s of Inl f \<Rightarrow> Inl f | Inr s' \<Rightarrow> run s' es)"

subsection \<open>Derived notions used by the properties\<close>

text \<open>The number of pumps whose \<^verbatim>\<open>pumpActive\<close> flag is set.\<close>

definition activeCount :: "sampler \<Rightarrow> nat" where
  "activeCount s = length (filter (\<lambda>b. b) (pumpActive s))"

text \<open>The array has its six entries and at most one of them is set.\<close>

definition pumps_ok :: "sampler \<Rightarrow> bool" where
  "pumps_ok s = (length (pumpActive s) = 6 \<and> activeCount s \<le> 1)"

text \<open>
  A configuration for the examples: pump \<open>i\<close> starts \<open>i\<close> minutes after arming and
  every pump runs for one minute.
\<close>

definition demo_cfg :: "int \<Rightarrow> int" where
  "demo_cfg i = (if i = 6 then 1 else i)"

text \<open>
  Water arrives and the whole sequence runs in the order of the due times: pump 1 starts
  at once; a minute after arming the start event of the next pump fires, and just after
  it the stop event registered by the previous start; the last event is the stop event
  registered when pump 6 started.
\<close>

definition full_cycle :: "event list" where
  "full_cycle =
     [EvUnderWater, EvTimer 0, EvTimer 0, EvTimer 4, EvTimer 0, EvTimer 3, EvTimer 0,
      EvTimer 2, EvTimer 0, EvTimer 1, EvTimer 0, EvTimer 0, EvTimer 0]"

text \<open>
  One press of the increase button with the cursor on the hour digit of pump 1, then
  fourteen presses of the advance button, which bring the cursor round to 0.
\<close>

definition edit_and_commit :: "event list" where
  "edit_and_commit = EvChangeVal upBtn # replicate 14 EvIncrementCursor"


text \<open>
  Water arrives, pump 1 starts at once, and the configuration is edited and committed
  within the first minute, while five start events and one stop event of the first
  arming are pending; the events then fire in the order of their due times.
\<close>

definition overlap_trace :: "event list" where
  "overlap_trace =
     [EvUnderWater, EvTimer 0] @ edit_and_commit @
     [EvTimer 0, EvTimer 4, EvTimer 5, EvTimer 0, EvTimer 8, EvTimer 4, EvTimer 7,
      EvTimer 0, EvTimer 6, EvTimer 3, EvTimer 5, EvTimer 0]"

text \<open>
  Before the sequence is armed every pending timer event is a start event.
\<close>

definition idle_ok :: "sampler \<Rightarrow> bool" where
  "idle_ok s = (\<not> running s \<longrightarrow> (\<forall>e \<in> set (timers s). snd e = StartPump))"

section \<open>Basic facts\<close>

lemma int16_id: "- 32768 \<le> x \<Longrightarrow> x < 32768 \<Longrightarrow> int16 x = x"
  by (simp add: int16_def)

lemma cdiv_nonneg: "0 \<le> a \<Longrightarrow> 0 < b \<Longrightarrow> cdiv a b = a div b"
  by (cases "a = 0") (simp_all add: cdiv_def)

lemma cmod_nonneg: "0 \<le> a \<Longrightarrow> 0 < b \<Longrightarrow> cmod a b = a mod b"
  by (simp add: cmod_def cdiv_nonneg minus_mult_div_eq_mod)

text \<open>The loop of \<^verbatim>\<open>setupPumps\<close> unrolled.\<close>

lemma setupPumps_eq:
  "setupPumps s =
     s\<lparr> initPumpNo := 0,
        pinOutput := (pinOutput s)(8 := True, 9 := True, 10 := True, 11 := True,
                                   12 := True, 13 := True),
        timers := timers s @ map (\<lambda>i. (props s i * MIN2MILLI, StartPump)) [0, 1, 2, 3, 4, 5] \<rparr>"
  by (simp add: setupPumps_def setupPumps_loop.simps PUMP_PINS_def numeral_eq_Suc)

lemmas sampler_defs =
  setup_state_def fire_def startPump_def stopPump_def startPump_int_def stopPump_int_def
  stopOthers.simps setupPumps_eq displayBig_def underWater_def overWater_def modify_def
  saveAndRestart_def incrementCursor_def decrementCursor_def changeVal_def bigChangeVal_def
  blink_def upBtn_def downBtn_def cdiv_def cmod_def int16_def MIN2MILLI_def PUMP_PINS_def
  Let_def numeral_eq_Suc

section \<open>Mutual exclusion of the pumps\<close>

lemma filter_update_False:
  "length (filter (\<lambda>b. b) (xs[i := False])) \<le> length (filter (\<lambda>b. b) xs)"
proof (induction xs arbitrary: i)
  case Nil
  show ?case by simp
next
  case (Cons x xs)
  show ?case
  proof (cases i)
    case 0
    then show ?thesis by simp
  next
    case (Suc k)
    with Cons [of k] show ?thesis by simp
  qed
qed

lemma stopPump_int_inv:
  assumes "stopPump_int i s = Inr s'"
  shows "length (pumpActive s') = length (pumpActive s) \<and> activeCount s' \<le> activeCount s"
  using assms filter_update_False [of "pumpActive s" "nat i"]
  by (auto simp: stopPump_int_def activeCount_def split: if_splits)

lemma six_cases:
  "0 \<le> (p::int) \<Longrightarrow> p < 6 \<Longrightarrow> p = 0 \<or> p = 1 \<or> p = 2 \<or> p = 3 \<or> p = 4 \<or> p = 5"
  by arith

lemma length6: "length xs = 6 \<Longrightarrow> \<exists>a b c d e f. xs = [a, b, c, d, e, f]"
  by (simp add: numeral_eq_Suc length_Suc_conv) blast

text \<open>
  What \<^verbatim>\<open>startPump(int)\<close> leaves behind when the sequence is armed: pump \<open>p\<close> on, the
  five others off, one more stop event.
\<close>

lemma startPump_int_running:
  assumes "running s" "0 \<le> p" "p < 6" "length (pumpActive s) = 6"
  shows "startPump_int p s =
     Inr (s\<lparr> pinLevel := (\<lambda>q. if q \<in> set PUMP_PINS then q = PUMP_PINS ! nat p else pinLevel s q),
             pumpActive := (replicate 6 False)[nat p := True],
             timers := timers s @ [(props s 6 * MIN2MILLI, StopPump)] \<rparr>)"
proof -
  obtain a b c d e f where xs: "pumpActive s = [a, b, c, d, e, f]"
    using length6 [OF assms(4)] by blast
  from six_cases [OF assms(2,3)] show ?thesis
    using assms(1) xs
    by (elim disjE)
      (auto simp add: startPump_int_def stopPump_int_def stopOthers.simps PUMP_PINS_def
         numeral_eq_Suc fun_eq_iff)
qed

lemma startPump_int_idle: "\<not> running s \<Longrightarrow> startPump_int p s = Inr s"
  by (simp add: startPump_int_def)

lemma activeCount_single:
  "0 \<le> p \<Longrightarrow> p < 6 \<Longrightarrow> length (filter (\<lambda>b. b) ((replicate 6 False)[nat p := True])) = 1"
  by (drule (1) six_cases) (auto simp: numeral_eq_Suc)

lemma startPump_int_ok:
  assumes "startPump_int p s = Inr s'" "pumps_ok s"
  shows "pumps_ok s'"
proof (cases "running s")
  case False
  with assms show ?thesis by (simp add: startPump_int_idle)
next
  case True
  with assms(1) have p: "0 \<le> p" "p < 6"
    by (auto simp: startPump_int_def split: if_splits)
  from assms(2) have "length (pumpActive s) = 6" by (simp add: pumps_ok_def)
  from startPump_int_running [OF True p this] assms(1) activeCount_single [OF p]
  show ?thesis by (auto simp: pumps_ok_def activeCount_def)
qed

lemma startPump_ok: "startPump s = Inr s' \<Longrightarrow> pumps_ok s \<Longrightarrow> pumps_ok s'"
  by (auto simp: startPump_def pumps_ok_def activeCount_def split: sum.splits
        dest!: startPump_int_ok [unfolded pumps_ok_def activeCount_def])

lemma stopPump_ok: "stopPump s = Inr s' \<Longrightarrow> pumps_ok s \<Longrightarrow> pumps_ok s'"
  by (auto simp: stopPump_def pumps_ok_def activeCount_def split: sum.splits
        dest!: stopPump_int_inv [unfolded activeCount_def])

lemma pumps_ok_timers: "pumps_ok (s\<lparr> timers := t \<rparr>) = pumps_ok s"
  by (simp add: pumps_ok_def activeCount_def)

lemma fire_ok:
  assumes "fire n s = Inr s'" "pumps_ok s"
  shows "pumps_ok s'"
proof (cases "n < length (timers s)")
  case False
  with assms show ?thesis by (simp add: fire_def)
next
  case True
  let ?s1 = "s\<lparr> timers := take n (timers s) @ drop (Suc n) (timers s) \<rparr>"
  from assms(2) have ok: "pumps_ok ?s1" by (simp add: pumps_ok_timers)
  show ?thesis
  proof (cases "snd (timers s ! n)")
    case StartPump
    with True assms(1) have "startPump ?s1 = Inr s'" by (simp add: fire_def)
    then show ?thesis using ok by (rule startPump_ok)
  next
    case StopPump
    with True assms(1) have "stopPump ?s1 = Inr s'" by (simp add: fire_def)
    then show ?thesis using ok by (rule stopPump_ok)
  qed
qed

lemma step_ok:
  assumes "step e s = Inr s'" "pumps_ok s"
  shows "pumps_ok s'"
proof (cases e)
  case (EvTimer n)
  with assms show ?thesis by (auto intro: fire_ok)
qed (use assms in \<open>auto simp: pumps_ok_def activeCount_def underWater_def overWater_def
       displayBig_def setupPumps_eq incrementCursor_def saveAndRestart_def decrementCursor_def
       changeVal_def bigChangeVal_def modify_def blink_def Let_def\<close>)

lemma run_ok: "run s evs = Inr s' \<Longrightarrow> pumps_ok s \<Longrightarrow> pumps_ok s'"
proof (induction evs arbitrary: s)
  case Nil
  then show ?case by simp
next
  case (Cons e evs)
  from Cons.prems(1) obtain s1 where s1: "step e s = Inr s1" and r: "run s1 evs = Inr s'"
    by (auto split: sum.splits)
  from step_ok [OF s1 Cons.prems(2)] have "pumps_ok s1" .
  with Cons.IH [OF r] show ?case .
qed

lemma setup_ok: "pumps_ok (setup_state cfg loaded)"
  by (simp add: pumps_ok_def activeCount_def setup_state_def)

text \<open>
  C1. Whatever the stored configuration and whatever events the loop has delivered
  since \<^verbatim>\<open>setup()\<close> (water present or absent, button callbacks, timer callbacks),
  the state reached has at most one \<^verbatim>\<open>pumpActive\<close> flag set; and in such a state with the
  sequence armed, starting pump \<open>i\<close> leaves pump \<open>i\<close> active and every other pump
  inactive. A run that indexes the arrays outside \<open>0..5\<close> has no state to speak of.
\<close>

theorem mutual_exclusion:
  assumes "run (setup_state cfg loaded) evs = Inr s"
  shows "activeCount s \<le> 1 \<and>
     (running s \<and> 0 \<le> i \<and> i < 6 \<longrightarrow>
        (\<exists>s'. startPump_int i s = Inr s' \<and>
              pumpActive s' = (replicate 6 False)[nat i := True]))"
proof -
  from run_ok [OF assms setup_ok] have ok: "pumps_ok s" .
  then have len: "length (pumpActive s) = 6" and "activeCount s \<le> 1"
    by (simp_all add: pumps_ok_def)
  moreover have "\<exists>s'. startPump_int i s = Inr s' \<and>
       pumpActive s' = (replicate 6 False)[nat i := True]"
    if "running s" "0 \<le> i" "i < 6"
    using startPump_int_running [OF that len] by simp
  ultimately show ?thesis by blast
qed

theorem mutual_exclusion_witness:
  "\<exists>s. run (setup_state demo_cfg True) [EvUnderWater, EvTimer 0, EvTimer 0] = Inr s \<and>
       pumpActive s = [False, True, False, False, False, False] \<and>
       activeCount s \<le> 1 \<and> running s \<and> (0::int) \<le> 2 \<and> (2::int) < 6 \<and>
       (\<exists>s'. startPump_int 2 s = Inr s' \<and>
             pumpActive s' = [False, False, True, False, False, False])"
proof -
  obtain s where r: "run (setup_state demo_cfg True) [EvUnderWater, EvTimer 0, EvTimer 0] = Inr s"
    and a: "pumpActive s = [False, True, False, False, False, False]" and g: "running s"
    by (simp add: sampler_defs demo_cfg_def)
  from mutual_exclusion [OF r, of 2] g
  have "activeCount s \<le> 1"
    and "\<exists>s'. startPump_int 2 s = Inr s' \<and> pumpActive s' = (replicate 6 False)[nat 2 := True]"
    by simp_all
  with r a g show ?thesis by (auto simp: numeral_eq_Suc)
qed

section \<open>Configuration values\<close>

lemma modify_target_nonneg: "0 \<le> props (modify i d s) i"
  by (simp add: modify_def Let_def)

lemma modify_other: "j \<noteq> i \<Longrightarrow> props (modify i d s) j = props s j"
  by (simp add: modify_def Let_def)

lemma fold_modify_nonneg:
  "i \<in> fst ` set calls \<or> 0 \<le> props s i \<Longrightarrow>
     0 \<le> props (fold (\<lambda>(p, d). modify p d) calls s) i"
proof (induction calls arbitrary: s)
  case Nil
  then show ?case by simp
next
  case (Cons c calls)
  obtain p d where c: "c = (p, d)" by (cases c)
  have "i \<in> fst ` set calls \<or> 0 \<le> props (modify p d s) i"
  proof (cases "i = p")
    case True
    then show ?thesis by (simp add: modify_target_nonneg)
  next
    case False
    with Cons.prems c show ?thesis by (auto simp: modify_other)
  qed
  from Cons.IH [OF this] c show ?case by simp
qed

text \<open>
  C6. After any sequence of \<^verbatim>\<open>modify(index, delta)\<close> calls, with any indices and any
  positive or negative deltas, the value stored at an index is not negative, provided
  one of the calls addressed that index or the value was not negative to begin with.
  The reason is that \<^verbatim>\<open>modify\<close> stores the maximum of the 16-bit sum and 0, which is
  \<open>max (get index + delta) 0\<close> whenever that sum fits in an \<^verbatim>\<open>int\<close>.
\<close>

theorem config_non_negative:
  "(i \<in> fst ` set calls \<or> 0 \<le> props s i \<longrightarrow>
      0 \<le> props (fold (\<lambda>(p, d). modify p d) calls s) i) \<and>
   props (modify i d s) i = max (int16 (props s i + d)) 0 \<and>
   (- 32768 \<le> props s i + d \<and> props s i + d \<le> 32767 \<longrightarrow>
      props (modify i d s) i = max (props s i + d) 0)"
  using fold_modify_nonneg [of i calls s]
  by (auto simp: modify_def Let_def int16_id)

theorem config_non_negative_witness:
  "(1::int) \<in> fst ` set [(1, - 60), (1, 1), (0, - 1)] \<and>
   props (fold (\<lambda>(p, d). modify p d) [(1, - 60), (1, 1), (0, - 1)] (setup_state demo_cfg True)) 1 = 1 \<and>
   0 \<le> props (fold (\<lambda>(p, d). modify p d) [(1, - 60), (1, 1), (0, - 1)] (setup_state demo_cfg True)) 1 \<and>
   - 32768 \<le> props (setup_state demo_cfg True) 1 + (- 60) \<and>
   props (setup_state demo_cfg True) 1 + (- 60) \<le> 32767 \<and>
   props (modify 1 (- 60) (setup_state demo_cfg True)) 1 = 0"
  using config_non_negative [of 1 "[(1, - 60), (1, 1), (0, - 1)]" "setup_state demo_cfg True" "- 60"]
  by (simp add: sampler_defs demo_cfg_def)

section \<open>Cursor\<close>



lemma stopOthers_frame:
  "stopOthers p i s = Inr s' \<Longrightarrow> \<exists>pl pa. s' = s\<lparr> pinLevel := pl, pumpActive := pa \<rparr>"
proof (induction p i s rule: stopOthers.induct)
  case (1 p i s)
  show ?case
  proof (cases "i < 6")
    case False
    with "1.prems" have "s' = s" by (simp add: stopOthers.simps)
    then have "s' = s\<lparr> pinLevel := pinLevel s, pumpActive := pumpActive s \<rparr>" by simp
    then show ?thesis by blast
  next
    case True
    then have unf: "stopOthers p i s =
        (if i \<noteq> p then
           (case stopPump_int i s of Inl e \<Rightarrow> Inl e | Inr s1 \<Rightarrow> stopOthers p (i + 1) s1)
         else stopOthers p (i + 1) s)"
      by (subst stopOthers.simps) simp
    show ?thesis
    proof (cases "i = p")
      case True
      with unf "1.prems" have "stopOthers p (i + 1) s = Inr s'"
        by simp
      from "1.IH"(2) [OF \<open>i < 6\<close> _ this] True show ?thesis by simp
    next
      case False
      with unf "1.prems" obtain s1 where s1: "stopPump_int i s = Inr s1"
        and r: "stopOthers p (i + 1) s1 = Inr s'"
        by (auto split: sum.splits)
      from "1.IH"(1) [OF \<open>i < 6\<close> False s1 r] obtain pl pa
        where "s' = s1\<lparr> pinLevel := pl, pumpActive := pa \<rparr>" by blast
      moreover from s1 obtain pl1 pa1
        where "s1 = s\<lparr> pinLevel := pl1, pumpActive := pa1 \<rparr>"
        by (auto simp: stopPump_int_def split: if_splits)
      ultimately have "s' = s\<lparr> pinLevel := pl, pumpActive := pa \<rparr>" by simp
      then show ?thesis by blast
    qed
  qed
qed









section \<open>Water present, water absent\<close>

text \<open>
  C8. With \<^verbatim>\<open>running\<close> already true, \<^verbatim>\<open>underWater\<close> only shows its notification:
  \<^verbatim>\<open>pumpActive\<close>, \<^verbatim>\<open>initPumpNo\<close>, \<^verbatim>\<open>currentPumpNo\<close> and the pending timer events are
  unchanged. With \<^verbatim>\<open>running\<close> false it sets \<^verbatim>\<open>running\<close> and registers the six start
  events, pump \<open>i\<close> after \<^verbatim>\<open>Properties.getInt(i)\<close> minutes.
\<close>

theorem rearm_guard:
  "(running s \<longrightarrow>
      underWater s = s\<lparr> shown := shown s @ [''Started''] \<rparr> \<and>
      pumpActive (underWater s) = pumpActive s \<and>
      initPumpNo (underWater s) = initPumpNo s \<and>
      currentPumpNo (underWater s) = currentPumpNo s \<and>
      timers (underWater s) = timers s) \<and>
   (\<not> running s \<longrightarrow>
      running (underWater s) \<and>
      timers (underWater s) =
        timers s @ map (\<lambda>i. (props s i * MIN2MILLI, StartPump)) [0, 1, 2, 3, 4, 5])"
  by (simp add: underWater_def displayBig_def setupPumps_eq)

theorem rearm_guard_witness:
  "\<not> running (setup_state demo_cfg True) \<and>
   running (underWater (setup_state demo_cfg True)) \<and>
   timers (underWater (setup_state demo_cfg True)) =
     [(0, StartPump), (60000, StartPump), (120000, StartPump), (180000, StartPump),
      (240000, StartPump), (300000, StartPump)] \<and>
   timers (underWater (underWater (setup_state demo_cfg True))) =
     timers (underWater (setup_state demo_cfg True)) \<and>
   pumpActive (underWater (underWater (setup_state demo_cfg True))) =
     pumpActive (underWater (setup_state demo_cfg True)) \<and>
   initPumpNo (underWater (underWater (setup_state demo_cfg True))) =
     initPumpNo (underWater (setup_state demo_cfg True)) \<and>
   currentPumpNo (underWater (underWater (setup_state demo_cfg True))) =
     currentPumpNo (underWater (setup_state demo_cfg True))"
proof -
  have idle: "\<not> running (setup_state demo_cfg True)"
    by (simp add: setup_state_def)
  from rearm_guard [of "setup_state demo_cfg True"] idle
  have armed: "running (underWater (setup_state demo_cfg True))"
    and t: "timers (underWater (setup_state demo_cfg True)) =
      timers (setup_state demo_cfg True) @
      map (\<lambda>i. (props (setup_state demo_cfg True) i * MIN2MILLI, StartPump)) [0, 1, 2, 3, 4, 5]"
    by simp_all
  from rearm_guard [of "underWater (setup_state demo_cfg True)"] armed
  have "pumpActive (underWater (underWater (setup_state demo_cfg True))) =
      pumpActive (underWater (setup_state demo_cfg True))"
    and "initPumpNo (underWater (underWater (setup_state demo_cfg True))) =
      initPumpNo (underWater (setup_state demo_cfg True))"
    and "currentPumpNo (underWater (underWater (setup_state demo_cfg True))) =
      currentPumpNo (underWater (setup_state demo_cfg True))"
    and "timers (underWater (underWater (setup_state demo_cfg True))) =
      timers (underWater (setup_state demo_cfg True))"
    by simp_all
  with idle armed t show ?thesis
    by (simp add: setup_state_def demo_cfg_def MIN2MILLI_def)
qed

text \<open>
  C10. \<^verbatim>\<open>overWater\<close> only shows its notification: every \<^verbatim>\<open>pumpActive\<close> flag, every pin
  level and direction, \<^verbatim>\<open>running\<close>, both sequence counters and the pending timer
  events keep their values.
\<close>

theorem water_loss_noop:
  "overWater s = s\<lparr> shown := shown s @ [''Water?''] \<rparr> \<and>
   pumpActive (overWater s) = pumpActive s \<and>
   pinLevel (overWater s) = pinLevel s \<and>
   pinOutput (overWater s) = pinOutput s \<and>
   running (overWater s) = running s \<and>
   initPumpNo (overWater s) = initPumpNo s \<and>
   currentPumpNo (overWater s) = currentPumpNo s \<and>
   timers (overWater s) = timers s"
  by (simp add: overWater_def displayBig_def)

section \<open>Edits\<close>

lemma cmod2_even: "0 \<le> c \<Longrightarrow> (cmod c 2 = 0) = even c"
  by (simp add: cmod_nonneg even_iff_mod_2_eq_zero)

lemma upBtn_neq_downBtn: "upBtn \<noteq> downBtn"
  by (simp add: upBtn_def downBtn_def cdiv_def)

text \<open>
  C9. With the cursor at \<open>v\<close> in \<open>[0,14)\<close>, a short press of the increase button is
  \<^verbatim>\<open>modify(v/2, +60)\<close> for even \<open>v\<close> and \<^verbatim>\<open>modify(v/2, +1)\<close> for odd \<open>v\<close>; a hold is
  \<^verbatim>\<open>modify(v/2, +540)\<close> or \<^verbatim>\<open>modify(v/2, +9)\<close>; the decrease button applies the negated
  deltas to the same index; \<open>v/2\<close> is one of the seven entries; and each of these edits
  sets \<^verbatim>\<open>reqRestart\<close>.
\<close>

theorem edit_deltas:
  assumes "0 \<le> cursorPos s" "cursorPos s < 14"
  shows "changeVal upBtn s
           = modify (cursorPos s div 2) (if even (cursorPos s) then 60 else 1) s \<and>
         changeVal downBtn s
           = modify (cursorPos s div 2) (- (if even (cursorPos s) then 60 else 1)) s \<and>
         bigChangeVal upBtn s
           = modify (cursorPos s div 2) (if even (cursorPos s) then 540 else 9) s \<and>
         bigChangeVal downBtn s
           = modify (cursorPos s div 2) (- (if even (cursorPos s) then 540 else 9)) s \<and>
         reqRestart (changeVal upBtn s) \<and> reqRestart (changeVal downBtn s) \<and>
         reqRestart (bigChangeVal upBtn s) \<and> reqRestart (bigChangeVal downBtn s) \<and>
         0 \<le> cursorPos s div 2 \<and> cursorPos s div 2 \<le> 6"
proof -
  have m: "reqRestart (modify p d s)" for p d
    by (simp add: modify_def Let_def)
  from assms have e: "(cmod (cursorPos s) 2 = 0) = even (cursorPos s)"
    and d: "cdiv (cursorPos s) 2 = cursorPos s div 2"
    by (simp_all add: cmod2_even cdiv_nonneg)
  have c: "changeVal upBtn s
           = modify (cursorPos s div 2) (if even (cursorPos s) then 60 else 1) s"
    "changeVal downBtn s
           = modify (cursorPos s div 2) (- (if even (cursorPos s) then 60 else 1)) s"
    "bigChangeVal upBtn s
           = modify (cursorPos s div 2) (if even (cursorPos s) then 540 else 9) s"
    "bigChangeVal downBtn s
           = modify (cursorPos s div 2) (- (if even (cursorPos s) then 540 else 9)) s"
    using upBtn_neq_downBtn by (simp_all add: changeVal_def bigChangeVal_def Let_def e d)
  from assms have "0 \<le> cursorPos s div 2 \<and> cursorPos s div 2 \<le> 6" by arith
  with c m show ?thesis by simp
qed

theorem edit_deltas_witness:
  "0 \<le> cursorPos (setup_state demo_cfg True\<lparr> cursorPos := 3 \<rparr>) \<and>
   cursorPos (setup_state demo_cfg True\<lparr> cursorPos := 3 \<rparr>) < 14 \<and>
   changeVal upBtn (setup_state demo_cfg True\<lparr> cursorPos := 3 \<rparr>)
     = modify 1 1 (setup_state demo_cfg True\<lparr> cursorPos := 3 \<rparr>) \<and>
   bigChangeVal downBtn (setup_state demo_cfg True\<lparr> cursorPos := 3 \<rparr>)
     = modify 1 (- 9) (setup_state demo_cfg True\<lparr> cursorPos := 3 \<rparr>) \<and>
   props (changeVal upBtn (setup_state demo_cfg True\<lparr> cursorPos := 3 \<rparr>)) 1 = 2 \<and>
   props (bigChangeVal downBtn (setup_state demo_cfg True\<lparr> cursorPos := 3 \<rparr>)) 1 = 0 \<and>
   reqRestart (changeVal upBtn (setup_state demo_cfg True\<lparr> cursorPos := 3 \<rparr>))"
proof -
  have h: "0 \<le> cursorPos (setup_state demo_cfg True\<lparr> cursorPos := 3 \<rparr>)"
    "cursorPos (setup_state demo_cfg True\<lparr> cursorPos := 3 \<rparr>) < 14"
    by simp_all
  show ?thesis
    using edit_deltas [OF h]
    by (simp add: changeVal_def bigChangeVal_def modify_def Let_def setup_state_def
          demo_cfg_def int16_def upBtn_def downBtn_def cdiv_def cmod_def)
qed

section \<open>Callbacks outside an armed sequence\<close>

text \<open>
  \<^verbatim>\<open>running\<close> is set by \<^verbatim>\<open>underWater\<close> and cleared nowhere, and \<^verbatim>\<open>stopPump\<close> is registered
  only under \<^verbatim>\<open>if (running)\<close>. So an armed sequence stays armed, and before arming the
  only events pending are the start events of a commit.
\<close>

lemma startPump_running: "startPump s = Inr s' \<Longrightarrow> running s \<Longrightarrow> running s'"
  by (auto simp: startPump_def startPump_int_def split: sum.splits if_splits
        dest!: stopOthers_frame)

lemma stopPump_running: "stopPump s = Inr s' \<Longrightarrow> running s \<Longrightarrow> running s'"
  by (auto simp: stopPump_def stopPump_int_def split: sum.splits if_splits)

lemma fire_running: "fire n s = Inr s' \<Longrightarrow> running s \<Longrightarrow> running s'"
  by (auto simp: fire_def Let_def split: if_splits callback.splits
        dest: startPump_running stopPump_running)

lemma step_running:
  assumes "step e s = Inr s'" "running s"
  shows "running s'"
proof (cases e)
  case (EvTimer n)
  with assms show ?thesis by (auto dest: fire_running)
qed (use assms in \<open>auto simp: underWater_def overWater_def displayBig_def setupPumps_eq
       incrementCursor_def saveAndRestart_def decrementCursor_def changeVal_def
       bigChangeVal_def modify_def blink_def Let_def\<close>)

lemma startPump_idle:
  "\<not> running s \<Longrightarrow> startPump s = Inr (s\<lparr> initPumpNo := int16 (initPumpNo s + 1) \<rparr>)"
  by (simp add: startPump_def startPump_int_def)

lemma fire_idle:
  assumes "idle_ok s" "\<not> running s" "n < length (timers s)"
  shows "snd (timers s ! n) = StartPump"
    and "fire n s =
      Inr (s\<lparr> timers := take n (timers s) @ drop (Suc n) (timers s),
              initPumpNo := int16 (initPumpNo s + 1) \<rparr>)"
proof -
  from assms(3) have "timers s ! n \<in> set (timers s)" by simp
  with assms(1,2) show cb: "snd (timers s ! n) = StartPump"
    by (simp add: idle_ok_def)
  from assms(2,3) cb show "fire n s =
      Inr (s\<lparr> timers := take n (timers s) @ drop (Suc n) (timers s),
              initPumpNo := int16 (initPumpNo s + 1) \<rparr>)"
    by (simp add: fire_def startPump_idle)
qed

lemma fire_idle_ok:
  assumes "fire n s = Inr s'" "idle_ok s"
  shows "idle_ok s'"
proof (cases "running s")
  case True
  from fire_running [OF assms(1) True] show ?thesis by (simp add: idle_ok_def)
next
  case False
  show ?thesis
  proof (cases "n < length (timers s)")
    case False
    with assms show ?thesis by (simp add: fire_def)
  next
    case True
    from fire_idle(2) [OF assms(2) \<open>\<not> running s\<close> True] assms(1)
    have s': "s' = s\<lparr> timers := take n (timers s) @ drop (Suc n) (timers s),
                      initPumpNo := int16 (initPumpNo s + 1) \<rparr>"
      by simp
    have "set (take n (timers s) @ drop (Suc n) (timers s)) \<subseteq> set (timers s)"
      using set_take_subset [of n "timers s"] set_drop_subset [of "Suc n" "timers s"]
      by auto
    with assms(2) \<open>\<not> running s\<close> show ?thesis
      unfolding s' by (auto simp: idle_ok_def)
  qed
qed

lemma step_idle_ok:
  assumes "step e s = Inr s'" "idle_ok s"
  shows "idle_ok s'"
proof (cases e)
  case (EvTimer n)
  with assms show ?thesis by (auto dest: fire_idle_ok)
qed (use assms in \<open>auto simp: idle_ok_def underWater_def overWater_def displayBig_def
       setupPumps_eq incrementCursor_def saveAndRestart_def decrementCursor_def
       changeVal_def bigChangeVal_def modify_def blink_def Let_def split: if_splits\<close>)

lemma run_idle_ok: "run s evs = Inr s' \<Longrightarrow> idle_ok s \<Longrightarrow> idle_ok s'"
proof (induction evs arbitrary: s)
  case Nil
  then show ?case by simp
next
  case (Cons e evs)
  from Cons.prems(1) obtain s1 where s1: "step e s = Inr s1" and r: "run s1 evs = Inr s'"
    by (auto split: sum.splits)
  from Cons.IH [OF r step_idle_ok [OF s1 Cons.prems(2)]] show ?case .
qed

lemma setup_idle_ok: "idle_ok (setup_state cfg loaded)"
  by (simp add: idle_ok_def setup_state_def)

text \<open>
  Against C4 as stated (a start or stop callback that fires while \<^verbatim>\<open>running\<close> is false
  changes no engine state, \<^verbatim>\<open>initPumpNo\<close> included). A commit before any water was seen
  registers six start events while \<^verbatim>\<open>running\<close> is false; when the first of them falls
  due and fires, \<^verbatim>\<open>running\<close> still false, \<^verbatim>\<open>initPumpNo\<close> goes from 0 to 1.
\<close>

theorem stale_callback_counterexample:
  "map_sum id running (run (setup_state demo_cfg True) edit_and_commit) = Inr False \<and>
   map_sum id timers (run (setup_state demo_cfg True) edit_and_commit)
     = Inr [(3600000, StartPump), (60000, StartPump), (120000, StartPump),
            (180000, StartPump), (240000, StartPump), (300000, StartPump)] \<and>
   map_sum id initPumpNo (run (setup_state demo_cfg True) edit_and_commit) = Inr 0 \<and>
   map_sum id initPumpNo (run (setup_state demo_cfg True) (edit_and_commit @ [EvTimer 1]))
     = Inr 1"
  by (simp add: sampler_defs demo_cfg_def edit_and_commit_def)

text \<open>
  C4, amended. In every run from \<^verbatim>\<open>setup()\<close>, a scheduled callback that fires while
  \<^verbatim>\<open>running\<close> is false is a pump-start callback: no pump-stop callback is pending then,
  so none fires. The start callback changes no \<^verbatim>\<open>pumpActive\<close> flag, no output, not
  \<^verbatim>\<open>currentPumpNo\<close> and registers nothing; apart from its own event leaving the timer,
  all it does is advance \<^verbatim>\<open>initPumpNo\<close> by one.
\<close>

theorem stale_callback_effect:
  assumes "run (setup_state cfg loaded) evs = Inr s" "\<not> running s" "n < length (timers s)"
  shows "snd (timers s ! n) = StartPump \<and>
     fire n s =
       Inr (s\<lparr> timers := take n (timers s) @ drop (Suc n) (timers s),
               initPumpNo := int16 (initPumpNo s + 1) \<rparr>)"
proof -
  from run_idle_ok [OF assms(1) setup_idle_ok] have "idle_ok s" .
  from fire_idle [OF this assms(2,3)] show ?thesis by simp
qed

theorem stale_callback_effect_witness:
  "\<exists>s. run (setup_state demo_cfg True) edit_and_commit = Inr s \<and>
       \<not> running s \<and> 1 < length (timers s) \<and>
       snd (timers s ! 1) = StartPump \<and>
       (\<exists>s'. fire 1 s = Inr s' \<and>
             initPumpNo s = 0 \<and> initPumpNo s' = 1 \<and>
             pumpActive s' = pumpActive s \<and> pinLevel s' = pinLevel s \<and>
             currentPumpNo s' = currentPumpNo s \<and> length (timers s') = 5)"
proof -
  obtain s where r: "run (setup_state demo_cfg True) edit_and_commit = Inr s"
    and g: "\<not> running s" and l: "length (timers s) = 6" and i: "initPumpNo s = 0"
    by (simp add: sampler_defs demo_cfg_def edit_and_commit_def)
  from l have n: "1 < length (timers s)" by simp
  from stale_callback_effect [OF r g n] i l
  have "snd (timers s ! 1) = StartPump"
    and "\<exists>s'. fire 1 s = Inr s' \<and> initPumpNo s' = 1 \<and> pumpActive s' = pumpActive s \<and>
           pinLevel s' = pinLevel s \<and> currentPumpNo s' = currentPumpNo s \<and>
           length (timers s') = 5"
    by (simp_all add: int16_def)
  with r g n i show ?thesis by blast
qed

section \<open>Commit and re-arming\<close>

text \<open>
  What holds of the commit: with the cursor in \<open>[0,14)\<close>, \<^verbatim>\<open>incrementCursor\<close> runs
  \<^verbatim>\<open>saveAndRestart\<close> exactly when it moves the cursor from 13 to 0 with \<^verbatim>\<open>reqRestart\<close>
  set; \<^verbatim>\<open>saveAndRestart\<close> is visible in the state; \<^verbatim>\<open>decrementCursor\<close> never runs it.
  Neither function ever writes \<^verbatim>\<open>reqRestart\<close>, and \<^verbatim>\<open>setupPumps\<close> never writes
  \<^verbatim>\<open>currentPumpNo\<close>.
\<close>

lemma incrementCursor_commit:
  assumes "0 \<le> cursorPos s" "cursorPos s < 14"
  shows "incrementCursor s =
     (if cursorPos s = 13 \<and> reqRestart s then saveAndRestart (s\<lparr> cursorPos := 0 \<rparr>)
      else s\<lparr> cursorPos := (cursorPos s + 1) mod 14 \<rparr>)"
proof -
  from assms have "cmod (int16 (cursorPos s + 1)) 14 = (cursorPos s + 1) mod 14"
    by (simp add: int16_id cmod_nonneg)
  moreover from assms have "((cursorPos s + 1) mod 14 = 0) = (cursorPos s = 13)"
    by presburger
  ultimately show ?thesis
    by (auto simp: incrementCursor_def Let_def)
qed

lemma saveAndRestart_changes: "saveAndRestart s \<noteq> s"
proof
  assume "saveAndRestart s = s"
  then have "shown (saveAndRestart s) = shown s" by simp
  then show False by (simp add: saveAndRestart_def setupPumps_eq displayBig_def)
qed

lemma decrementCursor_no_commit:
  "shown (decrementCursor s) = shown s \<and> timers (decrementCursor s) = timers s"
  by (simp add: decrementCursor_def)

lemma reqRestart_incrementCursor: "reqRestart (incrementCursor s) = reqRestart s"
  by (simp add: incrementCursor_def saveAndRestart_def setupPumps_eq displayBig_def Let_def)

lemma reqRestart_saveAndRestart: "reqRestart (saveAndRestart s) = reqRestart s"
  by (simp add: saveAndRestart_def setupPumps_eq displayBig_def)

lemma currentPumpNo_setupPumps: "currentPumpNo (setupPumps s) = currentPumpNo s"
  by (simp add: setupPumps_eq)

text \<open>
  C2 (the flag is cleared after a commit) fails on the sketch. After one edit and a
  commit \<^verbatim>\<open>reqRestart\<close> is still true, so the next time the cursor comes round to 0,
  with no edit in between, the sketch commits again and registers six more start events.
\<close>

theorem commit_leaves_flag_set:
  "map_sum id reqRestart (run (setup_state demo_cfg True) edit_and_commit) = Inr True \<and>
   map_sum id shown (run (setup_state demo_cfg True) edit_and_commit)
     = Inr [''Saving'' @ [CHR 0x0A] @ ''Config''] \<and>
   map_sum id shown
     (run (setup_state demo_cfg True) (edit_and_commit @ replicate 14 EvIncrementCursor))
     = Inr [''Saving'' @ [CHR 0x0A] @ ''Config'', ''Saving'' @ [CHR 0x0A] @ ''Config''] \<and>
   map_sum id (length \<circ> timers)
     (run (setup_state demo_cfg True) (edit_and_commit @ replicate 14 EvIncrementCursor))
     = Inr 12"
  by (simp add: sampler_defs demo_cfg_def edit_and_commit_def)

text \<open>
  C3 (arming resets both counters) fails on the sketch for \<^verbatim>\<open>currentPumpNo\<close>. After a
  complete sequence \<^verbatim>\<open>currentPumpNo\<close> is 6 and nothing is pending; a commit then
  registers the six start events at the configured offsets and resets \<^verbatim>\<open>initPumpNo\<close>,
  but \<^verbatim>\<open>currentPumpNo\<close> stays 6.
\<close>

theorem rearm_keeps_retire_index:
  "map_sum id currentPumpNo (run (setup_state demo_cfg True) full_cycle) = Inr 6 \<and>
   map_sum id timers (run (setup_state demo_cfg True) full_cycle) = Inr [] \<and>
   map_sum id currentPumpNo (run (setup_state demo_cfg True) (full_cycle @ edit_and_commit))
     = Inr 6 \<and>
   map_sum id initPumpNo (run (setup_state demo_cfg True) (full_cycle @ edit_and_commit))
     = Inr 0 \<and>
   map_sum id timers (run (setup_state demo_cfg True) (full_cycle @ edit_and_commit))
     = Inr [(3600000, StartPump), (60000, StartPump), (120000, StartPump),
            (180000, StartPump), (240000, StartPump), (300000, StartPump)]"
  by (simp add: sampler_defs demo_cfg_def full_cycle_def edit_and_commit_def)

text \<open>
  C5 (the pump index passed by the callbacks stays in \<open>0..5\<close>) fails on the sketch, in
  two ways. After a complete sequence and a commit, never more than six events pending,
  the first stop event calls \<^verbatim>\<open>stopPump(6)\<close>. And after a commit while events of the
  first arming are pending, the seventh start event after the commit calls
  \<^verbatim>\<open>startPump(6)\<close>.
\<close>

theorem pump_index_out_of_bounds:
  "map_sum id currentPumpNo
     (run (setup_state demo_cfg True) (full_cycle @ edit_and_commit @ [EvTimer 1, EvTimer 1]))
     = Inr 6 \<and>
   map_sum id timers
     (run (setup_state demo_cfg True) (full_cycle @ edit_and_commit @ [EvTimer 1, EvTimer 1]))
     = Inr [(3600000, StartPump), (180000, StartPump), (240000, StartPump),
            (300000, StartPump), (60000, StopPump), (60000, StopPump)] \<and>
   run (setup_state demo_cfg True)
     (full_cycle @ edit_and_commit @ [EvTimer 1, EvTimer 1, EvTimer 4])
     = Inl (OutOfBounds 6) \<and>
   map_sum id initPumpNo (run (setup_state demo_cfg True) (butlast overlap_trace)) = Inr 6 \<and>
   map_sum id currentPumpNo (run (setup_state demo_cfg True) (butlast overlap_trace)) = Inr 5 \<and>
   map_sum id (hd \<circ> timers) (run (setup_state demo_cfg True) (butlast overlap_trace))
     = Inr (240000, StartPump) \<and>
   last overlap_trace = EvTimer 0 \<and>
   run (setup_state demo_cfg True) overlap_trace = Inl (OutOfBounds 6)"
  by (simp add: sampler_defs demo_cfg_def full_cycle_def edit_and_commit_def
        overlap_trace_def)

end
